theory Spec2Isabelle
  imports Main "HOL-Library.Word" "HOL-Library.AList"
begin

section \<open>The Syncthing mover helpers of VolSync (controllers/mover/syncthing/syncthing.go)\<close>

text \<open>
  A shallow embedding of the four operations of the file: \<open>updateSyncthingDevices\<close>,
  \<open>syncthingNeedsReconfigure\<close>, \<open>GenerateRandomBytes\<close> / \<open>GenerateRandomString\<close> and
  \<open>asTCPAddress\<close>. A Go \<open>error\<close> return and a Go run-time panic are both values of the
  type \<open>exn\<close>; a pointer that may be nil is an \<open>option\<close>; the mutation of the handle is
  explicit state passing.
\<close>

subsection \<open>Errors and panics\<close>

datatype exn =
    Error string               \<comment> \<open>a returned Go \<open>error\<close>, with its message\<close>
  | NilPointerDereference      \<comment> \<open>panic: a field read through a nil pointer\<close>
  | IndexOutOfRange            \<comment> \<open>panic: \<open>xs[0]\<close> on an empty slice\<close>
  | MakeSliceLenOutOfRange     \<comment> \<open>panic: \<open>make([]byte, n)\<close> with negative \<open>n\<close>\<close>

subsection \<open>Data model\<close>

text \<open>\<open>v1alpha1.SyncthingPeer\<close>: the desired-state entry.\<close>

record SyncthingPeer =
  ID :: string
  Address :: string
  Introducer :: bool

text \<open>
  \<open>config.DeviceConfiguration\<close>, with the fields the file reads or writes. The device
  identifier type \<open>protocol.DeviceID\<close> belongs to the Syncthing library and is the type
  parameter \<open>'id\<close>. The field \<open>Introducer\<close> of the device is named \<open>DevIntroducer\<close>
  here, since \<open>Introducer\<close> is already the peer's field.
\<close>

record 'id DeviceConfiguration =
  DeviceID :: 'id
  Addresses :: "string list"
  DevIntroducer :: bool
  IntroducedBy :: 'id

text \<open>
  The operations of the Syncthing library's \<open>protocol\<close> package that the file calls are
  parameters of the model: the parser \<open>protocol.DeviceIDFromString\<close> (\<open>Inl\<close> carries the
  message of the parse error), the printer \<open>DeviceID.GoString\<close>, and the zero value of the
  identifier type, which a struct literal leaves in every field it does not name.
\<close>

record 'id protocol =
  DeviceIDFromString :: "string \<Rightarrow> string + 'id"
  GoString :: "'id \<Rightarrow> string"
  EmptyDeviceID :: 'id

text \<open>
  Modelled from the spec: the agent handle \<open>api.Syncthing\<close>, whose declaration is not in
  the file. The spec gives it a self identifier, the current device configuration (an
  ordered sequence of devices), a replaceable device list, and the locally defined shared
  folders, each associated with a device set.
\<close>

record 'id FolderConfiguration =
  FolderID :: string
  FolderDevices :: "'id DeviceConfiguration list"

record 'id Configuration =
  Devices :: "'id DeviceConfiguration list"
  Folders :: "'id FolderConfiguration list"

record 'id Syncthing =
  Configuration :: "'id Configuration"
  self_identifier :: string

text \<open>Modelled from the spec: \<open>MyID()\<close> is the handle's \<open>self_identifier() -> string\<close>.\<close>

definition MyID :: "'id Syncthing \<Rightarrow> string" where
  "MyID syncthing = self_identifier syncthing"

text \<open>
  Modelled from the spec: \<open>ShareFoldersWithDevices(devices)\<close> "instructs the agent to
  associate every locally defined shared folder with the given device set"; it touches
  nothing but the folders.
\<close>

definition ShareFoldersWithDevices ::
  "'id DeviceConfiguration list \<Rightarrow> 'id Syncthing \<Rightarrow> 'id Syncthing" where
  "ShareFoldersWithDevices devices syncthing =
     syncthing\<lparr>Configuration := (Configuration syncthing)
       \<lparr>Folders := map (\<lambda>folder. folder\<lparr>FolderDevices := devices\<rparr>)
                      (Folders (Configuration syncthing))\<rparr>\<rparr>"

subsection \<open>updateSyncthingDevices\<close>

text \<open>
  The first loop (lines 39--43): self and the introduced devices are appended to
  \<open>newDevices\<close> as they are.
\<close>

fun keepDevices ::
  "'id protocol \<Rightarrow> string \<Rightarrow> 'id DeviceConfiguration list \<Rightarrow> 'id DeviceConfiguration list
     \<Rightarrow> 'id DeviceConfiguration list" where
  "keepDevices P me [] newDevices = newDevices"
| "keepDevices P me (device # rest) newDevices =
     (if GoString P (DeviceID device) = me \<or> GoString P (IntroducedBy device) \<noteq> ''''
      then keepDevices P me rest (newDevices @ [device])
      else keepDevices P me rest newDevices)"

text \<open>
  The second loop (lines 45--56): one device per peer; the first identifier that does not
  parse returns its error at once. \<open>stDeviceToAdd\<close> is the struct literal of lines
  50--54; the field \<open>IntroducedBy\<close>, which the literal does not name, has the zero value.
\<close>

definition stDeviceToAdd ::
  "'id protocol \<Rightarrow> 'id \<Rightarrow> SyncthingPeer \<Rightarrow> 'id DeviceConfiguration" where
  "stDeviceToAdd P deviceID device =
     \<lparr>DeviceID = deviceID, Addresses = [Address device],
      DevIntroducer = Introducer device, IntroducedBy = EmptyDeviceID P\<rparr>"

fun addPeers ::
  "'id protocol \<Rightarrow> SyncthingPeer list \<Rightarrow> 'id DeviceConfiguration list
     \<Rightarrow> string + 'id DeviceConfiguration list" where
  "addPeers P [] newDevices = Inr newDevices"
| "addPeers P (device # rest) newDevices =
     (case DeviceIDFromString P (ID device) of
        Inl err \<Rightarrow> Inl err
      | Inr deviceID \<Rightarrow> addPeers P rest (newDevices @ [stDeviceToAdd P deviceID device]))"

text \<open>
  The function returns the Go \<open>error\<close> (\<open>None\<close> is \<open>nil\<close>) together with the handle as
  the call leaves it.
\<close>

definition updateSyncthingDevices ::
  "'id protocol \<Rightarrow> SyncthingPeer list \<Rightarrow> 'id Syncthing option
     \<Rightarrow> exn option \<times> 'id Syncthing option" where
  "updateSyncthingDevices P peerList syncthing =
     (case syncthing of
        None \<Rightarrow> (Some (Error ''syncthing cannot be nil''), None)
      | Some s \<Rightarrow>
          (case addPeers P peerList (keepDevices P (MyID s) (Devices (Configuration s)) []) of
             Inl err \<Rightarrow> (Some (Error err), Some s)
           | Inr newDevices \<Rightarrow>
               (None,
                Some (ShareFoldersWithDevices newDevices
                        (s\<lparr>Configuration := (Configuration s)\<lparr>Devices := newDevices\<rparr>\<rparr>)))))"

subsection \<open>syncthingNeedsReconfigure\<close>

text \<open>
  A Go \<open>map[string]v1alpha1.SyncthingPeer\<close> is an association list with distinct keys:
  \<open>m[k] = v\<close> is \<open>AList.update k v m\<close>, the lookup \<open>_, ok := m[k]\<close> is \<open>map_of m k\<close>, and
  \<open>range m\<close> visits the entries of the list. Go leaves the order of \<open>range\<close> open; the two
  final loops only ask whether some entry fails a test, which no order changes.
\<close>

type_synonym peerMap = "(string \<times> SyncthingPeer) list"

text \<open>The map literal of lines 69--75 and 87--93.\<close>

definition selfMap :: "string \<Rightarrow> peerMap" where
  "selfMap me = [(me, \<lparr>ID = me, Address = '''', Introducer = False\<rparr>)]"

text \<open>Lines 78--84.\<close>

fun addNodes :: "string \<Rightarrow> SyncthingPeer list \<Rightarrow> peerMap \<Rightarrow> peerMap" where
  "addNodes me [] newDevices = newDevices"
| "addNodes me (device # rest) newDevices =
     (if ID device = me then addNodes me rest newDevices
      else addNodes me rest (AList.update (ID device) device newDevices))"

text \<open>Lines 95--105; \<open>device.Addresses[0]\<close> panics on an empty slice.\<close>

fun addCurrent ::
  "'id protocol \<Rightarrow> string \<Rightarrow> 'id DeviceConfiguration list \<Rightarrow> peerMap \<Rightarrow> exn + peerMap" where
  "addCurrent P me [] currentDevs = Inr currentDevs"
| "addCurrent P me (device # rest) currentDevs =
     (if GoString P (DeviceID device) = me \<or> GoString P (IntroducedBy device) \<noteq> ''''
      then addCurrent P me rest currentDevs
      else (case Addresses device of
              [] \<Rightarrow> Inl IndexOutOfRange
            | a # _ \<Rightarrow>
                addCurrent P me rest
                  (AList.update (GoString P (DeviceID device))
                     \<lparr>ID = GoString P (DeviceID device), Address = a, Introducer = False\<rparr>
                     currentDevs)))"

text \<open>
  Lines 108--112 and 113--117: \<open>True\<close> as soon as the \<open>ID\<close> of a value of the first map
  is no key of the second.
\<close>

fun missingFrom :: "peerMap \<Rightarrow> peerMap \<Rightarrow> bool" where
  "missingFrom [] other = False"
| "missingFrom ((k, device) # rest) other =
     (case map_of other (ID device) of
        None \<Rightarrow> True
      | Some _ \<Rightarrow> missingFrom rest other)"

text \<open>
  Both maps keep every value under its own \<open>ID\<close>: the invariant that lets the final loops
  look a value's \<open>ID\<close> up instead of its key.
\<close>

definition keyed :: "peerMap \<Rightarrow> bool" where
  "keyed m = list_all (\<lambda>(k, device). ID device = k) m"

text \<open>
  There is no nil check: \<open>syncthing.MyID()\<close> in the first map literal reads through the
  pointer.
\<close>

definition syncthingNeedsReconfigure ::
  "'id protocol \<Rightarrow> SyncthingPeer list \<Rightarrow> 'id Syncthing option \<Rightarrow> exn + bool" where
  "syncthingNeedsReconfigure P nodeList syncthing =
     (case syncthing of
        None \<Rightarrow> Inl NilPointerDereference
      | Some s \<Rightarrow>
          (let newDevices = addNodes (MyID s) nodeList (selfMap (MyID s)) in
           case addCurrent P (MyID s) (Devices (Configuration s)) (selfMap (MyID s)) of
             Inl panic \<Rightarrow> Inl panic
           | Inr currentDevs \<Rightarrow>
               Inr (if missingFrom newDevices currentDevs then True
                    else if missingFrom currentDevs newDevices then True
                    else False)))"

text \<open>
  The two key sets in the words of the spec: the desired set is seeded with self and
  receives every desired peer by identifier, skipping those equal to self; the current
  set is seeded with self and receives every current device, skipping self and the
  devices with a non-empty introduced-by.
\<close>

definition desiredSet :: "'id Syncthing \<Rightarrow> SyncthingPeer list \<Rightarrow> string set" where
  "desiredSet s nodeList =
     insert (MyID s) {ID p |p. p \<in> set nodeList \<and> ID p \<noteq> MyID s}"

definition currentSet :: "'id protocol \<Rightarrow> 'id Syncthing \<Rightarrow> string set" where
  "currentSet P s =
     insert (MyID s)
       {GoString P (DeviceID d) |d. d \<in> set (Devices (Configuration s)) \<and>
          GoString P (DeviceID d) \<noteq> MyID s \<and> GoString P (IntroducedBy d) = ''''}"

text \<open>
  The precondition of the first-address read: every device that is neither self nor
  introduced has at least one address.
\<close>

definition addressesValid :: "'id protocol \<Rightarrow> 'id Syncthing \<Rightarrow> bool" where
  "addressesValid P s =
     list_all (\<lambda>d. GoString P (DeviceID d) = MyID s \<or> GoString P (IntroducedBy d) \<noteq> '''' \<or>
                    Addresses d \<noteq> [])
       (Devices (Configuration s))"

subsection \<open>GenerateRandomBytes and GenerateRandomString\<close>

text \<open>
  The operating system's random source behind \<open>crypto/rand\<close> is a parameter: whether it
  fails (with which message) and, when it does not, the byte it delivers at each position.
  \<open>rand.Read(b)\<close> overwrites the cells of \<open>b\<close>; it cannot change the length of the slice.
\<close>

record entropy =
  failure :: "string option"
  draw :: "nat \<Rightarrow> 8 word"

definition rand_Read :: "entropy \<Rightarrow> 8 word list \<Rightarrow> 8 word list \<times> string option" where
  "rand_Read src b =
     (case failure src of
        Some err \<Rightarrow> (b, Some err)
      | None \<Rightarrow> (map (draw src) [0..<length b], None))"

text \<open>
  \<open>make([]byte, length)\<close>: a zeroed slice; a negative length panics. Go's \<open>int\<close> is a
  signed machine word of the platform's width \<open>'w\<close>. The allocation limit of the Go run
  time is outside the model.
\<close>

definition make_bytes :: "'w::len word \<Rightarrow> exn + 8 word list" where
  "make_bytes n =
     (if sint n < 0 then Inl MakeSliceLenOutOfRange
      else Inr (replicate (nat (sint n)) 0))"

definition GenerateRandomBytes :: "entropy \<Rightarrow> 'w::len word \<Rightarrow> exn + 8 word list" where
  "GenerateRandomBytes src n =
     (case make_bytes n of
        Inl panic \<Rightarrow> Inl panic
      | Inr b \<Rightarrow>
          (case rand_Read src b of
             (b', Some err) \<Rightarrow> Inl (Error err)
           | (b', None) \<Rightarrow> Inr b'))"

definition lowerBound :: "8 word" where
  "lowerBound = 33"

definition upperBound :: "8 word" where
  "upperBound = 126"

definition acceptableRange :: "8 word" where
  "acceptableRange = upperBound - lowerBound + 1"

text \<open>The loop of lines 150--154, with its counter \<open>i\<close> and the slice it appends to.\<close>

function mapBytes :: "8 word list \<Rightarrow> nat \<Rightarrow> 8 word list \<Rightarrow> 8 word list" where
  "mapBytes b i acceptableBytes =
     (if i < length b
      then mapBytes b (i + 1) (acceptableBytes @ [(b ! i mod acceptableRange) + lowerBound])
      else acceptableBytes)"
  by pat_completeness auto
termination
  by (relation "measure (\<lambda>(b, i, acc). length b - i)") auto

text \<open>\<open>string(acceptableBytes)\<close>: a Go string is its bytes.\<close>

definition string_of_bytes :: "8 word list \<Rightarrow> string" where
  "string_of_bytes bs = map (\<lambda>w. char_of (unat w)) bs"

definition GenerateRandomString :: "entropy \<Rightarrow> 'w::len word \<Rightarrow> exn + string" where
  "GenerateRandomString src n =
     (case GenerateRandomBytes src n of
        Inl e \<Rightarrow> Inl e
      | Inr b \<Rightarrow> Inr (string_of_bytes (mapBytes b 0 [])))"

subsection \<open>asTCPAddress\<close>

text \<open>
  Regular expressions, as far as the pattern of \<open>asTCPAddress\<close> needs them, matched by
  derivatives. \<open>Zero\<close>, \<open>One\<close>, \<open>Alt\<close> and \<open>Star\<close> only arise as derivatives.
\<close>

datatype rexp =
    Zero
  | One
  | Class "char \<Rightarrow> bool"
  | Alt rexp rexp
  | Seq rexp rexp
  | Star rexp
  | Plus rexp

fun nullable :: "rexp \<Rightarrow> bool" where
  "nullable Zero = False"
| "nullable One = True"
| "nullable (Class P) = False"
| "nullable (Alt r s) = (nullable r \<or> nullable s)"
| "nullable (Seq r s) = (nullable r \<and> nullable s)"
| "nullable (Star r) = True"
| "nullable (Plus r) = nullable r"

fun deriv :: "char \<Rightarrow> rexp \<Rightarrow> rexp" where
  "deriv c Zero = Zero"
| "deriv c One = Zero"
| "deriv c (Class P) = (if P c then One else Zero)"
| "deriv c (Alt r s) = Alt (deriv c r) (deriv c s)"
| "deriv c (Seq r s) =
     (if nullable r then Alt (Seq (deriv c r) s) (deriv c s) else Seq (deriv c r) s)"
| "deriv c (Star r) = Seq (deriv c r) (Star r)"
| "deriv c (Plus r) = Seq (deriv c r) (Star r)"

text \<open>
  \<open>MatchString\<close> for a pattern written between \<open>^\<close> and \<open>$\<close> (no flags): the whole
  string has to match.
\<close>

fun MatchString :: "rexp \<Rightarrow> string \<Rightarrow> bool" where
  "MatchString r [] = nullable r"
| "MatchString r (c # cs) = MatchString (deriv c r) cs"

text \<open>The character classes \<open>\w\<close> (\<open>[0-9A-Za-z_]\<close>) and \<open>\s\<close> (\<open>[\t\n\f\r ]\<close>) of Go.\<close>

definition word_char :: "char \<Rightarrow> bool" where
  "word_char c =
     (let n = (of_char c :: nat)
      in (48 \<le> n \<and> n \<le> 57) \<or> (65 \<le> n \<and> n \<le> 90) \<or> n = 95 \<or> (97 \<le> n \<and> n \<le> 122))"

definition space_char :: "char \<Rightarrow> bool" where
  "space_char c =
     (let n = (of_char c :: nat) in n = 9 \<or> n = 10 \<or> n = 12 \<or> n = 13 \<or> n = 32)"

definition lit :: "char \<Rightarrow> rexp" where
  "lit c = Class (\<lambda>x. x = c)"

text \<open>The pattern \<^verbatim>\<open>^(\w+:\/\/)[^\s]+$\<close> of line 164.\<close>

definition uriPattern :: rexp where
  "uriPattern =
     Seq (Seq (Plus (Class word_char)) (Seq (lit CHR '':'') (Seq (lit CHR ''/'') (lit CHR ''/''))))
         (Plus (Class (\<lambda>c. \<not> space_char c)))"

definition asTCPAddress :: "string \<Rightarrow> string" where
  "asTCPAddress address =
     (if MatchString uriPattern address then address else ''tcp://'' @ address)"

text \<open>
  The pattern in the words of the spec, \<^verbatim>\<open>^\w+://\<close>: a scheme prefix, followed by
  anything.
\<close>

definition specPattern :: rexp where
  "specPattern =
     Seq (Seq (Plus (Class word_char)) (Seq (lit CHR '':'') (Seq (lit CHR ''/'') (lit CHR ''/''))))
         (Star (Class (\<lambda>c. True)))"

text \<open>The language of a regular expression, the meaning the matcher is proved against.\<close>

definition conc :: "string set \<Rightarrow> string set \<Rightarrow> string set" where
  "conc A B = {u @ v |u v. u \<in> A \<and> v \<in> B}"

inductive_set star :: "string set \<Rightarrow> string set" for A :: "string set" where
  star_empty: "[] \<in> star A"
| star_step: "u \<in> A \<Longrightarrow> v \<in> star A \<Longrightarrow> u @ v \<in> star A"

fun lang :: "rexp \<Rightarrow> string set" where
  "lang Zero = {}"
| "lang One = {[]}"
| "lang (Class P) = {[c] |c. P c}"
| "lang (Alt r s) = lang r \<union> lang s"
| "lang (Seq r s) = conc (lang r) (lang s)"
| "lang (Star r) = star (lang r)"
| "lang (Plus r) = conc (lang r) (star (lang r))"

subsection \<open>Example values\<close>

text \<open>
  An instance of the parameters, to run the model on examples: a device identifier is its
  own string, the zero identifier is the empty string, and the one string \<open>not-an-id\<close>
  does not parse.
\<close>

definition exampleProtocol :: "string protocol" where
  "exampleProtocol =
     \<lparr>DeviceIDFromString = (\<lambda>s. if s = ''not-an-id'' then Inl ''device ID invalid'' else Inr s),
      GoString = (\<lambda>deviceID. deviceID),
      EmptyDeviceID = []\<rparr>"

text \<open>
  The agent of the spec's example: its own device \<open>S\<close> and a device \<open>B\<close> introduced by
  \<open>A\<close>; one shared folder.
\<close>

definition exampleAgent :: "string Syncthing" where
  "exampleAgent =
     \<lparr>Configuration =
        \<lparr>Devices =
           [\<lparr>DeviceID = ''S'', Addresses = [], DevIntroducer = False, IntroducedBy = []\<rparr>,
            \<lparr>DeviceID = ''B'', Addresses = [''dynamic''], DevIntroducer = False,
              IntroducedBy = ''A''\<rparr>],
         Folders = [\<lparr>FolderID = ''data'', FolderDevices = []\<rparr>]\<rparr>,
      self_identifier = ''S''\<rparr>"

definition examplePeer :: SyncthingPeer where
  "examplePeer = \<lparr>ID = ''A'', Address = ''10.0.0.2:22000'', Introducer = False\<rparr>"

text \<open>The random source that never fails and delivers the bytes 0, 1, 2, ...\<close>

definition exampleEntropy :: entropy where
  "exampleEntropy = \<lparr>failure = None, draw = (\<lambda>i. of_nat i)\<rparr>"

section \<open>The matcher and the pattern of asTCPAddress\<close>

text \<open>The derivative matcher decides membership in the language of the expression.\<close>

lemma nil_in_conc: "[] \<in> conc A B \<longleftrightarrow> [] \<in> A \<and> [] \<in> B"
  by (auto simp: conc_def)

lemma nullable_lang: "nullable r \<longleftrightarrow> [] \<in> lang r"
  by (induction r) (auto simp: nil_in_conc star_empty)

lemma cons_in_conc:
  "c # s \<in> conc A B \<longleftrightarrow>
     (\<exists>u v. s = u @ v \<and> c # u \<in> A \<and> v \<in> B) \<or> ([] \<in> A \<and> c # s \<in> B)"
proof
  assume "c # s \<in> conc A B"
  then obtain u v where uv: "c # s = u @ v" "u \<in> A" "v \<in> B"
    by (auto simp: conc_def)
  show "(\<exists>u v. s = u @ v \<and> c # u \<in> A \<and> v \<in> B) \<or> ([] \<in> A \<and> c # s \<in> B)"
  proof (cases u)
    case Nil
    with uv show ?thesis by simp
  next
    case (Cons a u')
    with uv have "s = u' @ v" "c # u' \<in> A" by auto
    with uv show ?thesis by blast
  qed
next
  assume "(\<exists>u v. s = u @ v \<and> c # u \<in> A \<and> v \<in> B) \<or> ([] \<in> A \<and> c # s \<in> B)"
  then show "c # s \<in> conc A B"
  proof
    assume "\<exists>u v. s = u @ v \<and> c # u \<in> A \<and> v \<in> B"
    then obtain u v where "s = u @ v" "c # u \<in> A" "v \<in> B" by blast
    then have "c # s = (c # u) @ v" by simp
    with \<open>c # u \<in> A\<close> \<open>v \<in> B\<close> show ?thesis unfolding conc_def by blast
  next
    assume "[] \<in> A \<and> c # s \<in> B"
    then have "c # s = [] @ (c # s)" "[] \<in> A" "c # s \<in> B" by simp_all
    then show ?thesis unfolding conc_def by blast
  qed
qed

lemma star_cons_split:
  "w \<in> star A \<Longrightarrow> w = c # s \<Longrightarrow> \<exists>u v. s = u @ v \<and> c # u \<in> A \<and> v \<in> star A"
proof (induction arbitrary: c s rule: star.induct)
  case star_empty
  then show ?case by simp
next
  case (star_step u v)
  show ?case
  proof (cases u)
    case Nil
    with star_step show ?thesis by simp
  next
    case (Cons a u')
    with star_step.prems have "s = u' @ v" "a = c" by auto
    with Cons star_step.hyps show ?thesis by blast
  qed
qed

lemma cons_in_star:
  "c # s \<in> star A \<longleftrightarrow> (\<exists>u v. s = u @ v \<and> c # u \<in> A \<and> v \<in> star A)"
proof
  assume "c # s \<in> star A"
  then show "\<exists>u v. s = u @ v \<and> c # u \<in> A \<and> v \<in> star A"
    using star_cons_split by blast
next
  assume "\<exists>u v. s = u @ v \<and> c # u \<in> A \<and> v \<in> star A"
  then obtain u v where "s = u @ v" "c # u \<in> A" "v \<in> star A" by blast
  then show "c # s \<in> star A"
    using star_step [of "c # u" A v] by simp
qed

lemma in_conc_iff: "w \<in> conc A B \<longleftrightarrow> (\<exists>u v. w = u @ v \<and> u \<in> A \<and> v \<in> B)"
  by (auto simp: conc_def)

lemma lang_deriv: "s \<in> lang (deriv c r) \<longleftrightarrow> c # s \<in> lang r"
proof (induction r arbitrary: s)
  case Zero
  show ?case by simp
next
  case One
  show ?case by simp
next
  case (Class P)
  show ?case by (cases "P c") auto
next
  case (Alt r1 r2)
  then show ?case by simp
next
  case (Seq r1 r2)
  have "s \<in> lang (deriv c (Seq r1 r2)) \<longleftrightarrow>
        (\<exists>u v. s = u @ v \<and> c # u \<in> lang r1 \<and> v \<in> lang r2) \<or> ([] \<in> lang r1 \<and> c # s \<in> lang r2)"
  proof (cases "nullable r1")
    case True
    then have "[] \<in> lang r1" by (simp add: nullable_lang)
    with True show ?thesis by (simp add: in_conc_iff Seq.IH)
  next
    case False
    then have "[] \<notin> lang r1" by (simp add: nullable_lang)
    with False show ?thesis by (simp add: in_conc_iff Seq.IH)
  qed
  also have "\<dots> \<longleftrightarrow> c # s \<in> conc (lang r1) (lang r2)"
    by (rule cons_in_conc [symmetric])
  finally show ?case by simp
next
  case (Star r)
  have "s \<in> lang (deriv c (Star r)) \<longleftrightarrow>
        (\<exists>u v. s = u @ v \<and> c # u \<in> lang r \<and> v \<in> star (lang r))"
    by (simp add: in_conc_iff Star.IH)
  also have "\<dots> \<longleftrightarrow> c # s \<in> star (lang r)"
    by (rule cons_in_star [symmetric])
  finally show ?case by simp
next
  case (Plus r)
  have "s \<in> lang (deriv c (Plus r)) \<longleftrightarrow>
        (\<exists>u v. s = u @ v \<and> c # u \<in> lang r \<and> v \<in> star (lang r))"
    by (simp add: in_conc_iff Plus.IH)
  also have "\<dots> \<longleftrightarrow> c # s \<in> star (lang r)"
    by (rule cons_in_star [symmetric])
  also have "\<dots> \<longleftrightarrow> c # s \<in> conc (lang r) (star (lang r))"
  proof
    assume "c # s \<in> star (lang r)"
    then obtain u v where "s = u @ v" "c # u \<in> lang r" "v \<in> star (lang r)"
      using star_cons_split by blast
    then show "c # s \<in> conc (lang r) (star (lang r))"
      unfolding cons_in_conc by blast
  next
    assume "c # s \<in> conc (lang r) (star (lang r))"
    then obtain u v where "c # s = u @ v" "u \<in> lang r" "v \<in> star (lang r)"
      unfolding in_conc_iff by blast
    then show "c # s \<in> star (lang r)"
      using star_step [of u "lang r" v] by simp
  qed
  finally show ?case by simp
qed

lemma MatchString_lang: "MatchString r s \<longleftrightarrow> s \<in> lang r"
  by (induction s arbitrary: r) (simp_all add: nullable_lang lang_deriv)


lemma star_class: "s \<in> star {[c] |c. P c} \<longleftrightarrow> list_all P s"
proof
  assume "s \<in> star {[c] |c. P c}"
  then show "list_all P s"
    by (induction rule: star.induct) auto
next
  assume "list_all P s"
  then show "s \<in> star {[c] |c. P c}"
  proof (induction s)
    case Nil
    show ?case by (rule star_empty)
  next
    case (Cons a s)
    then have "[a] \<in> {[c] |c. P c}" "s \<in> star {[c] |c. P c}" by auto
    then have "[a] @ s \<in> star {[c] |c. P c}" by (rule star_step)
    then show ?case by simp
  qed
qed

lemma plus_class:
  "s \<in> lang (Plus (Class P)) \<longleftrightarrow> s \<noteq> [] \<and> list_all P s"
proof (cases s)
  case Nil
  then show ?thesis by (simp add: nil_in_conc)
next
  case (Cons a t)
  have "a # t \<in> conc {[c] |c. P c} (star {[c] |c. P c}) \<longleftrightarrow> P a \<and> list_all P t"
    by (auto simp: cons_in_conc star_class)
  with Cons show ?thesis by simp
qed

lemma lang_scheme:
  "s \<in> lang (Seq (Plus (Class P)) (Seq (lit CHR '':'') (Seq (lit CHR ''/'') (lit CHR ''/'')))) \<longleftrightarrow>
     (\<exists>w. s = w @ ''://'' \<and> w \<noteq> [] \<and> list_all P w)"
proof -
  have tail: "lang (Seq (lit CHR '':'') (Seq (lit CHR ''/'') (lit CHR ''/''))) = {''://''}"
    by (auto simp: lit_def conc_def)
  have "s \<in> lang (Seq (Plus (Class P)) (Seq (lit CHR '':'') (Seq (lit CHR ''/'') (lit CHR ''/'')))) \<longleftrightarrow>
        (\<exists>u v. s = u @ v \<and> u \<in> lang (Plus (Class P)) \<and>
               v \<in> lang (Seq (lit CHR '':'') (Seq (lit CHR ''/'') (lit CHR ''/''))))"
    by (simp only: lang.simps in_conc_iff)
  also have "\<dots> \<longleftrightarrow> (\<exists>w. s = w @ ''://'' \<and> w \<noteq> [] \<and> list_all P w)"
    unfolding tail plus_class by blast
  finally show ?thesis .
qed

lemma uriPattern_iff:
  "MatchString uriPattern s \<longleftrightarrow>
     (\<exists>w r. s = w @ ''://'' @ r \<and> w \<noteq> [] \<and> list_all word_char w \<and>
            r \<noteq> [] \<and> list_all (\<lambda>c. \<not> space_char c) r)"
  (is "?L \<longleftrightarrow> ?R")
proof -
  have L: "?L \<longleftrightarrow>
        (\<exists>u v. s = u @ v \<and>
           u \<in> lang (Seq (Plus (Class word_char)) (Seq (lit CHR '':'') (Seq (lit CHR ''/'') (lit CHR ''/'')))) \<and>
           v \<in> lang (Plus (Class (\<lambda>c. \<not> space_char c))))"
    unfolding MatchString_lang uriPattern_def by (simp only: lang.simps(5) in_conc_iff)
  show ?thesis
  proof
    assume ?L
    then obtain u v where uv: "s = u @ v"
        "u \<in> lang (Seq (Plus (Class word_char)) (Seq (lit CHR '':'') (Seq (lit CHR ''/'') (lit CHR ''/''))))"
        "v \<in> lang (Plus (Class (\<lambda>c. \<not> space_char c)))"
      unfolding L by blast
    from uv(2) obtain w where w: "u = w @ ''://''" "w \<noteq> []" "list_all word_char w"
      unfolding lang_scheme by blast
    from uv(3) have v: "v \<noteq> []" "list_all (\<lambda>c. \<not> space_char c) v"
      unfolding plus_class by simp_all
    from uv(1) w(1) have "s = w @ ''://'' @ v" by simp
    with w v show ?R by blast
  next
    assume ?R
    then obtain w r where wr: "s = w @ ''://'' @ r" "w \<noteq> []" "list_all word_char w"
        "r \<noteq> []" "list_all (\<lambda>c. \<not> space_char c) r"
      by blast
    have 1: "w @ ''://'' \<in> lang (Seq (Plus (Class word_char)) (Seq (lit CHR '':'') (Seq (lit CHR ''/'') (lit CHR ''/''))))"
      unfolding lang_scheme using wr(2,3) by blast
    have 2: "r \<in> lang (Plus (Class (\<lambda>c. \<not> space_char c)))"
      unfolding plus_class using wr(4,5) by simp
    have "s = (w @ ''://'') @ r" using wr(1) by simp
    with 1 2 show ?L unfolding L by blast
  qed
qed

lemma specPattern_iff:
  "MatchString specPattern s \<longleftrightarrow>
     (\<exists>w r. s = w @ ''://'' @ r \<and> w \<noteq> [] \<and> list_all word_char w)"
  (is "?L \<longleftrightarrow> ?R")
proof -
  have any: "v \<in> lang (Star (Class (\<lambda>c. True)))" for v
    using star_class [of v "\<lambda>c. True"] by (simp add: list_all_iff)
  have L: "?L \<longleftrightarrow>
        (\<exists>u v. s = u @ v \<and>
           u \<in> lang (Seq (Plus (Class word_char)) (Seq (lit CHR '':'') (Seq (lit CHR ''/'') (lit CHR ''/'')))) \<and>
           v \<in> lang (Star (Class (\<lambda>c. True))))"
    unfolding MatchString_lang specPattern_def by (simp only: lang.simps(5) in_conc_iff)
  show ?thesis
  proof
    assume ?L
    then obtain u v where uv: "s = u @ v"
        "u \<in> lang (Seq (Plus (Class word_char)) (Seq (lit CHR '':'') (Seq (lit CHR ''/'') (lit CHR ''/''))))"
      unfolding L by blast
    from uv(2) obtain w where w: "u = w @ ''://''" "w \<noteq> []" "list_all word_char w"
      unfolding lang_scheme by blast
    from uv(1) w(1) have "s = w @ ''://'' @ v" by simp
    with w show ?R by blast
  next
    assume ?R
    then obtain w r where wr: "s = w @ ''://'' @ r" "w \<noteq> []" "list_all word_char w"
      by blast
    have 1: "w @ ''://'' \<in> lang (Seq (Plus (Class word_char)) (Seq (lit CHR '':'') (Seq (lit CHR ''/'') (lit CHR ''/''))))"
      unfolding lang_scheme using wr(2,3) by blast
    have "s = (w @ ''://'') @ r" using wr(1) by simp
    with 1 any [of r] show ?L unfolding L by blast
  qed
qed

section \<open>asTCPAddress\<close>

text \<open>
  The doc comment of \<open>asTCPAddress\<close> (lines 158--159) says that it "returns it with a TCP
  prefix if none exist yet. If the address already contains a prefix, then it is simply
  returned", and line 163 says "ignore if a prefix already exists". The pattern of line
  164 asks for more than a prefix: after \<open>://\<close> it wants at least one more character and
  no white space up to the end.
\<close>

text \<open>
  C5 at the address \<open>tcp://\<close>: the address has a scheme prefix (it matches
  \<^verbatim>\<open>^\w+://\<close>), so it is to be returned unchanged; the code's pattern does not match
  it, and the code returns \<open>tcp://tcp://\<close>.
\<close>

theorem asTCPAddress_double_prefix:
  "MatchString specPattern ''tcp://'' \<and> \<not> MatchString uriPattern ''tcp://'' \<and>
   asTCPAddress ''tcp://'' = ''tcp://tcp://''"
  by (simp add: asTCPAddress_def specPattern_def uriPattern_def lit_def word_char_def space_char_def)

text \<open>
  C6 at the empty address: the first application gives \<open>tcp://\<close>; the second finds no
  match for the pattern in \<open>tcp://\<close>, although the prefix is there, and gives
  \<open>tcp://tcp://\<close>. Applying twice differs from applying once.
\<close>

theorem asTCPAddress_twice_at_empty:
  "asTCPAddress [] = ''tcp://'' \<and> asTCPAddress (asTCPAddress []) = ''tcp://tcp://'' \<and>
   asTCPAddress (asTCPAddress []) \<noteq> asTCPAddress []"
  by (simp add: asTCPAddress_def uriPattern_def lit_def word_char_def space_char_def)

section \<open>updateSyncthingDevices\<close>

text \<open>The two loops as list functions, and what \<open>ShareFoldersWithDevices\<close> leaves alone.\<close>

lemma keepDevices_filter:
  "keepDevices P me ds acc =
     acc @ filter (\<lambda>d. GoString P (DeviceID d) = me \<or> GoString P (IntroducedBy d) \<noteq> '''') ds"
  by (induction ds arbitrary: acc) simp_all

lemma addPeers_ok:
  "list_all (\<lambda>p. \<not> isl (DeviceIDFromString P (ID p))) peers \<Longrightarrow>
   addPeers P peers acc =
     Inr (acc @ map (\<lambda>p. stDeviceToAdd P (projr (DeviceIDFromString P (ID p))) p) peers)"
proof (induction peers arbitrary: acc)
  case Nil
  show ?case by simp
next
  case (Cons p peers)
  from Cons.prems obtain i where i: "DeviceIDFromString P (ID p) = Inr i"
    by (cases "DeviceIDFromString P (ID p)") simp_all
  from Cons.prems have "list_all (\<lambda>p. \<not> isl (DeviceIDFromString P (ID p))) peers" by simp
  from Cons.IH [OF this] i show ?case by simp
qed

lemma addPeers_fails:
  "list_ex (\<lambda>p. isl (DeviceIDFromString P (ID p))) peers \<Longrightarrow> \<exists>err. addPeers P peers acc = Inl err"
proof (induction peers arbitrary: acc)
  case Nil
  then show ?case by simp
next
  case (Cons p peers)
  show ?case
  proof (cases "DeviceIDFromString P (ID p)")
    case (Inl e)
    then show ?thesis by simp
  next
    case (Inr i)
    with Cons.prems have "list_ex (\<lambda>p. isl (DeviceIDFromString P (ID p))) peers" by simp
    from Cons.IH [OF this] Inr show ?thesis by simp
  qed
qed

lemma addPeers_Inr_all:
  "addPeers P peers acc = Inr ds \<Longrightarrow> list_all (\<lambda>p. \<not> isl (DeviceIDFromString P (ID p))) peers"
proof (induction peers arbitrary: acc)
  case Nil
  show ?case by simp
next
  case (Cons p peers)
  then show ?case by (cases "DeviceIDFromString P (ID p)") auto
qed

lemma Devices_ShareFoldersWithDevices:
  "Devices (Configuration (ShareFoldersWithDevices ds s)) = Devices (Configuration s)"
  by (simp add: ShareFoldersWithDevices_def)

lemma MyID_ShareFoldersWithDevices:
  "MyID (ShareFoldersWithDevices ds s) = MyID s"
  by (simp add: ShareFoldersWithDevices_def MyID_def)

text \<open>
  C2, as the code has it: after \<open>updateSyncthingDevices\<close> returns without error, every
  desired identifier has parsed, and the agent's device list is the previously present
  devices that are self or have a non-empty introduced-by, unchanged and in their order,
  followed by one newly constructed device per entry of the desired peer list, in its
  order, and nothing else. The list is free of duplicate identifiers exactly when the
  carried-forward devices are, the parsed desired identifiers are, and no desired
  identifier is the identifier of a carried-forward device.
\<close>

theorem updateSyncthingDevices_result:
  assumes "fst (updateSyncthingDevices P peerList (Some s)) = None"
  shows "\<exists>s'. snd (updateSyncthingDevices P peerList (Some s)) = Some s' \<and>
           list_all (\<lambda>p. \<not> isl (DeviceIDFromString P (ID p))) peerList \<and>
           Devices (Configuration s') =
             filter (\<lambda>d. GoString P (DeviceID d) = MyID s \<or> GoString P (IntroducedBy d) \<noteq> '''')
               (Devices (Configuration s)) @
             map (\<lambda>p. stDeviceToAdd P (projr (DeviceIDFromString P (ID p))) p) peerList \<and>
           (distinct (map DeviceID (Devices (Configuration s'))) \<longleftrightarrow>
              distinct (map DeviceID
                (filter (\<lambda>d. GoString P (DeviceID d) = MyID s \<or> GoString P (IntroducedBy d) \<noteq> '''')
                   (Devices (Configuration s)))) \<and>
              distinct (map (\<lambda>p. projr (DeviceIDFromString P (ID p))) peerList) \<and>
              set (map DeviceID
                (filter (\<lambda>d. GoString P (DeviceID d) = MyID s \<or> GoString P (IntroducedBy d) \<noteq> '''')
                   (Devices (Configuration s)))) \<inter>
                set (map (\<lambda>p. projr (DeviceIDFromString P (ID p))) peerList) = {})"
proof (cases "addPeers P peerList (keepDevices P (MyID s) (Devices (Configuration s)) [])")
  case (Inl err)
  with assms show ?thesis by (simp add: updateSyncthingDevices_def)
next
  case (Inr newDevices)
  define kept where "kept =
    filter (\<lambda>d. GoString P (DeviceID d) = MyID s \<or> GoString P (IntroducedBy d) \<noteq> '''')
      (Devices (Configuration s))"
  define new where "new = map (\<lambda>p. stDeviceToAdd P (projr (DeviceIDFromString P (ID p))) p) peerList"
  define s' where "s' = ShareFoldersWithDevices newDevices
               (s\<lparr>Configuration := (Configuration s)\<lparr>Devices := newDevices\<rparr>\<rparr>)"
  have all: "list_all (\<lambda>p. \<not> isl (DeviceIDFromString P (ID p))) peerList"
    using Inr by (rule addPeers_Inr_all)
  from addPeers_ok [OF all, of "keepDevices P (MyID s) (Devices (Configuration s)) []"] Inr
  have nd: "newDevices = kept @ new"
    unfolding kept_def new_def keepDevices_filter by simp
  have res: "snd (updateSyncthingDevices P peerList (Some s)) = Some s'"
    unfolding s'_def using Inr by (simp add: updateSyncthingDevices_def)
  have dev: "Devices (Configuration s') = kept @ new"
    unfolding s'_def Devices_ShareFoldersWithDevices nd by simp
  have ids: "map DeviceID new = map (\<lambda>p. projr (DeviceIDFromString P (ID p))) peerList"
    unfolding new_def by (simp add: stDeviceToAdd_def)
  have "distinct (map DeviceID (kept @ new)) \<longleftrightarrow>
          distinct (map DeviceID kept) \<and> distinct (map DeviceID new) \<and>
          set (map DeviceID kept) \<inter> set (map DeviceID new) = {}"
    by (simp only: map_append distinct_append)
  then have dist: "distinct (map DeviceID (Devices (Configuration s'))) \<longleftrightarrow>
          distinct (map DeviceID kept) \<and>
          distinct (map (\<lambda>p. projr (DeviceIDFromString P (ID p))) peerList) \<and>
          set (map DeviceID kept) \<inter> set (map (\<lambda>p. projr (DeviceIDFromString P (ID p))) peerList) = {}"
    unfolding dev ids .
  have "snd (updateSyncthingDevices P peerList (Some s)) = Some s' \<and>
        list_all (\<lambda>p. \<not> isl (DeviceIDFromString P (ID p))) peerList \<and>
        Devices (Configuration s') = kept @ new \<and>
        (distinct (map DeviceID (Devices (Configuration s'))) \<longleftrightarrow>
          distinct (map DeviceID kept) \<and>
          distinct (map (\<lambda>p. projr (DeviceIDFromString P (ID p))) peerList) \<and>
          set (map DeviceID kept) \<inter> set (map (\<lambda>p. projr (DeviceIDFromString P (ID p))) peerList) = {})"
    using res all dev dist by (intro conjI)
  then show ?thesis unfolding kept_def new_def by (rule exI)
qed

text \<open>
  The spec's example: desired peer \<open>A\<close>, current devices self and \<open>B\<close> (introduced by
  \<open>A\<close>); the new list is self, \<open>B\<close> unchanged, and the new device \<open>A\<close>.
\<close>

theorem updateSyncthingDevices_result_witness:
  "fst (updateSyncthingDevices exampleProtocol [examplePeer] (Some exampleAgent)) = None \<and>
   (\<exists>s'. snd (updateSyncthingDevices exampleProtocol [examplePeer] (Some exampleAgent)) = Some s' \<and>
      Devices (Configuration s') =
        [\<lparr>DeviceID = ''S'', Addresses = [], DevIntroducer = False, IntroducedBy = []\<rparr>,
         \<lparr>DeviceID = ''B'', Addresses = [''dynamic''], DevIntroducer = False, IntroducedBy = ''A''\<rparr>,
         \<lparr>DeviceID = ''A'', Addresses = [''10.0.0.2:22000''], DevIntroducer = False,
           IntroducedBy = []\<rparr>] \<and>
      distinct (map DeviceID (Devices (Configuration s'))))"
proof -
  have h: "fst (updateSyncthingDevices exampleProtocol [examplePeer] (Some exampleAgent)) = None"
    by (simp add: updateSyncthingDevices_def exampleProtocol_def examplePeer_def exampleAgent_def
        MyID_def stDeviceToAdd_def)
  from updateSyncthingDevices_result [OF h] h show ?thesis
    by (simp add: exampleProtocol_def examplePeer_def exampleAgent_def MyID_def stDeviceToAdd_def)
qed

text \<open>
  C2 with "no duplicate identifiers" for every desired peer list fails: the code adds one
  device per entry, as the claim also asks, and never compares identifiers, so a peer list
  that names \<open>A\<close> twice gives a device list with two devices \<open>A\<close>.
\<close>

theorem updateSyncthingDevices_duplicates_counterexample:
  "fst (updateSyncthingDevices exampleProtocol [examplePeer, examplePeer] (Some exampleAgent)) = None \<and>
   map_option (map DeviceID \<circ> Devices \<circ> Configuration)
     (snd (updateSyncthingDevices exampleProtocol [examplePeer, examplePeer] (Some exampleAgent))) =
     Some [''S'', ''B'', ''A'', ''A'']"
  by (simp add: updateSyncthingDevices_def exampleProtocol_def examplePeer_def exampleAgent_def
      MyID_def stDeviceToAdd_def ShareFoldersWithDevices_def)

text \<open>
  C3: \<open>updateSyncthingDevices\<close> is all-or-nothing. When some desired peer's identifier
  does not parse, the call returns an error and the handle after the call is the handle
  before the call: the device list is untouched and the folders are not shared anew.
\<close>

theorem updateSyncthingDevices_all_or_nothing:
  assumes "list_ex (\<lambda>p. isl (DeviceIDFromString P (ID p))) peerList"
  shows "\<exists>err. updateSyncthingDevices P peerList syncthing = (Some (Error err), syncthing)"
proof (cases syncthing)
  case None
  then show ?thesis by (simp add: updateSyncthingDevices_def)
next
  case (Some s)
  from addPeers_fails [OF assms]
  obtain err where "addPeers P peerList (keepDevices P (MyID s) (Devices (Configuration s)) []) = Inl err"
    by blast
  with Some show ?thesis by (simp add: updateSyncthingDevices_def)
qed

text \<open>A peer list whose second identifier does not parse.\<close>

theorem updateSyncthingDevices_all_or_nothing_witness:
  "list_ex (\<lambda>p. isl (DeviceIDFromString exampleProtocol (ID p)))
     [examplePeer, \<lparr>ID = ''not-an-id'', Address = ''10.0.0.3:22000'', Introducer = True\<rparr>] \<and>
   (\<exists>err. updateSyncthingDevices exampleProtocol
       [examplePeer, \<lparr>ID = ''not-an-id'', Address = ''10.0.0.3:22000'', Introducer = True\<rparr>]
       (Some exampleAgent) = (Some (Error err), Some exampleAgent))"
proof -
  have h: "list_ex (\<lambda>p. isl (DeviceIDFromString exampleProtocol (ID p)))
     [examplePeer, \<lparr>ID = ''not-an-id'', Address = ''10.0.0.3:22000'', Introducer = True\<rparr>]"
    by (simp add: exampleProtocol_def examplePeer_def)
  from updateSyncthingDevices_all_or_nothing [OF h, of "Some exampleAgent"] h show ?thesis
    by (intro conjI)
qed

section \<open>syncthingNeedsReconfigure\<close>

text \<open>The association lists behave as maps keyed by the identifier of their values.\<close>

lemma set_update_subset: "set (AList.update k v al) \<subseteq> insert (k, v) (set al)"
proof (induction al)
  case Nil
  show ?case by simp
next
  case (Cons e al)
  obtain k' v' where e: "e = (k', v')" by (cases e)
  show ?case
  proof (cases "k' = k")
    case True
    with e show ?thesis by auto
  next
    case False
    with e Cons.IH show ?thesis by auto
  qed
qed


lemma keyed_update:
  assumes "keyed m" and "ID device = k"
  shows "keyed (AList.update k device m)"
proof -
  have "\<And>e. e \<in> set (AList.update k device m) \<Longrightarrow> ID (snd e) = fst e"
  proof -
    fix e
    assume "e \<in> set (AList.update k device m)"
    with set_update_subset [of k device m] have "e = (k, device) \<or> e \<in> set m" by blast
    then show "ID (snd e) = fst e"
    proof
      assume "e = (k, device)"
      with assms(2) show ?thesis by simp
    next
      assume "e \<in> set m"
      with assms(1) show ?thesis
        unfolding keyed_def list_all_iff by (cases e) auto
    qed
  qed
  then show ?thesis
    unfolding keyed_def list_all_iff by (simp add: case_prod_beta)
qed

lemma addNodes_keys:
  "fst ` set (addNodes me nodes m) = fst ` set m \<union> {ID p |p. p \<in> set nodes \<and> ID p \<noteq> me}"
proof (induction nodes arbitrary: m)
  case Nil
  show ?case by simp
next
  case (Cons n nodes)
  show ?case
  proof (cases "ID n = me")
    case True
    have "{ID p |p. p \<in> set (n # nodes) \<and> ID p \<noteq> me} = {ID p |p. p \<in> set nodes \<and> ID p \<noteq> me}"
      using True by auto
    with True Cons.IH [of m] show ?thesis by simp
  next
    case False
    have "{ID p |p. p \<in> set (n # nodes) \<and> ID p \<noteq> me} =
          insert (ID n) {ID p |p. p \<in> set nodes \<and> ID p \<noteq> me}"
      using False by auto
    with False Cons.IH [of "AList.update (ID n) n m"] show ?thesis
      by (simp add: dom_update)
  qed
qed

lemma keyed_selfMap: "keyed (selfMap me)"
  by (simp add: keyed_def selfMap_def)

lemma addNodes_keyed: "keyed m \<Longrightarrow> keyed (addNodes me nodes m)"
  by (induction nodes arbitrary: m) (simp_all add: keyed_update)

lemma addCurrent_valid:
  assumes "list_all (\<lambda>d. GoString P (DeviceID d) = me \<or> GoString P (IntroducedBy d) \<noteq> '''' \<or>
                         Addresses d \<noteq> []) ds"
    and "keyed m"
  shows "\<exists>m'. addCurrent P me ds m = Inr m' \<and> keyed m' \<and>
           fst ` set m' = fst ` set m \<union>
             {GoString P (DeviceID d) |d. d \<in> set ds \<and> GoString P (DeviceID d) \<noteq> me \<and>
                GoString P (IntroducedBy d) = ''''}"
  using assms
proof (induction ds arbitrary: m)
  case Nil
  then show ?case by simp
next
  case (Cons d ds)
  from Cons.prems have rest: "list_all (\<lambda>d. GoString P (DeviceID d) = me \<or>
      GoString P (IntroducedBy d) \<noteq> '''' \<or> Addresses d \<noteq> []) ds"
    by simp
  show ?case
  proof (cases "GoString P (DeviceID d) = me \<or> GoString P (IntroducedBy d) \<noteq> ''''")
    case True
    from Cons.IH [OF rest Cons.prems(2)] obtain m' where
      m': "addCurrent P me ds m = Inr m'" "keyed m'"
        "fst ` set m' = fst ` set m \<union>
             {GoString P (DeviceID d) |d. d \<in> set ds \<and> GoString P (DeviceID d) \<noteq> me \<and>
                GoString P (IntroducedBy d) = ''''}"
      by blast
    from True m'(1) have "addCurrent P me (d # ds) m = Inr m'" by simp
    moreover from True m'(3) have "fst ` set m' = fst ` set m \<union>
             {GoString P (DeviceID x) |x. x \<in> set (d # ds) \<and> GoString P (DeviceID x) \<noteq> me \<and>
                GoString P (IntroducedBy x) = ''''}"
      by auto
    ultimately show ?thesis using m'(2) by blast
  next
    case False
    with Cons.prems(1) obtain a as where a: "Addresses d = a # as"
      by (cases "Addresses d") auto
    let ?m = "AList.update (GoString P (DeviceID d))
                \<lparr>ID = GoString P (DeviceID d), Address = a, Introducer = False\<rparr> m"
    have "keyed ?m" using Cons.prems(2) by (simp add: keyed_update)
    from Cons.IH [OF rest this] obtain m' where
      m': "addCurrent P me ds ?m = Inr m'" "keyed m'"
        "fst ` set m' = fst ` set ?m \<union>
             {GoString P (DeviceID d) |d. d \<in> set ds \<and> GoString P (DeviceID d) \<noteq> me \<and>
                GoString P (IntroducedBy d) = ''''}"
      by blast
    from False a m'(1) have "addCurrent P me (d # ds) m = Inr m'" by simp
    moreover from False m'(3) have "fst ` set m' = fst ` set m \<union>
             {GoString P (DeviceID x) |x. x \<in> set (d # ds) \<and> GoString P (DeviceID x) \<noteq> me \<and>
                GoString P (IntroducedBy x) = ''''}"
      by (auto simp: dom_update)
    ultimately show ?thesis using m'(2) by blast
  qed
qed

lemma addCurrent_invalid:
  assumes "\<not> list_all (\<lambda>d. GoString P (DeviceID d) = me \<or> GoString P (IntroducedBy d) \<noteq> '''' \<or>
                         Addresses d \<noteq> []) ds"
  shows "addCurrent P me ds m = Inl IndexOutOfRange"
  using assms
proof (induction ds arbitrary: m)
  case Nil
  then show ?case by simp
next
  case (Cons d ds)
  show ?case
  proof (cases "GoString P (DeviceID d) = me \<or> GoString P (IntroducedBy d) \<noteq> ''''")
    case True
    with Cons.prems have "\<not> list_all (\<lambda>d. GoString P (DeviceID d) = me \<or>
        GoString P (IntroducedBy d) \<noteq> '''' \<or> Addresses d \<noteq> []) ds"
      by auto
    from Cons.IH [OF this] True show ?thesis by simp
  next
    case False
    show ?thesis
    proof (cases "Addresses d")
      case Nil
      with False show ?thesis by simp
    next
      case (Cons a as)
      with False Cons.prems have "\<not> list_all (\<lambda>d. GoString P (DeviceID d) = me \<or>
          GoString P (IntroducedBy d) \<noteq> '''' \<or> Addresses d \<noteq> []) ds"
        by auto
      from Cons.IH [OF this] False Cons show ?thesis by simp
    qed
  qed
qed

lemma addCurrent_skip_introduced:
  assumes "GoString P (IntroducedBy d) \<noteq> ''''"
  shows "addCurrent P me (xs @ d # ys) m = addCurrent P me (xs @ ys) m"
  using assms
proof (induction xs arbitrary: m)
  case Nil
  then show ?case by simp
next
  case (Cons x xs)
  then show ?case by (simp split: list.split)
qed

lemma missingFrom_iff:
  "missingFrom a b \<longleftrightarrow> list_ex (\<lambda>(k, device). ID device \<notin> fst ` set b) a"
proof (induction a)
  case Nil
  show ?case by simp
next
  case (Cons e a)
  obtain k device where e: "e = (k, device)" by (cases e)
  show ?case
  proof (cases "map_of b (ID device)")
    case None
    then have "ID device \<notin> fst ` set b" by (simp add: map_of_eq_None_iff)
    with None e show ?thesis by simp
  next
    case (Some v)
    from map_of_SomeD [OF Some] have "fst (ID device, v) \<in> fst ` set b" by (rule imageI)
    then have "ID device \<in> fst ` set b" by simp
    with Some e Cons.IH show ?thesis by simp
  qed
qed

lemma missingFrom_keys:
  assumes "keyed a"
  shows "missingFrom a b \<longleftrightarrow> \<not> fst ` set a \<subseteq> fst ` set b"
proof -
  from assms have k: "\<And>e. e \<in> set a \<Longrightarrow> ID (snd e) = fst e"
    unfolding keyed_def list_all_iff by (simp add: case_prod_beta)
  have "missingFrom a b \<longleftrightarrow> (\<exists>e\<in>set a. ID (snd e) \<notin> fst ` set b)"
    unfolding missingFrom_iff list_ex_iff by (simp add: case_prod_beta)
  also have "\<dots> \<longleftrightarrow> (\<exists>e\<in>set a. fst e \<notin> fst ` set b)"
    using k by simp
  also have "\<dots> \<longleftrightarrow> \<not> fst ` set a \<subseteq> fst ` set b"
    by blast
  finally show ?thesis .
qed

lemma needsReconfigure_valid:
  assumes "addressesValid P s"
  shows "syncthingNeedsReconfigure P nodeList (Some s) = Inr (desiredSet s nodeList \<noteq> currentSet P s)"
proof -
  let ?new = "addNodes (MyID s) nodeList (selfMap (MyID s))"
  from assms have "list_all (\<lambda>d. GoString P (DeviceID d) = MyID s \<or> GoString P (IntroducedBy d) \<noteq> '''' \<or>
                         Addresses d \<noteq> []) (Devices (Configuration s))"
    by (simp add: addressesValid_def)
  from addCurrent_valid [OF this keyed_selfMap] obtain cur where
    cur: "addCurrent P (MyID s) (Devices (Configuration s)) (selfMap (MyID s)) = Inr cur"
      "keyed cur"
      "fst ` set cur = fst ` set (selfMap (MyID s)) \<union>
             {GoString P (DeviceID d) |d. d \<in> set (Devices (Configuration s)) \<and> GoString P (DeviceID d) \<noteq> MyID s \<and>
                GoString P (IntroducedBy d) = ''''}"
    by blast
  have knew: "keyed ?new" by (rule addNodes_keyed [OF keyed_selfMap])
  have dnew: "fst ` set ?new = desiredSet s nodeList"
    by (simp add: addNodes_keys desiredSet_def selfMap_def)
  have dcur: "fst ` set cur = currentSet P s"
    using cur(3) by (simp add: currentSet_def selfMap_def)
  have "syncthingNeedsReconfigure P nodeList (Some s) =
          Inr (missingFrom ?new cur \<or> missingFrom cur ?new)"
    using cur(1) by (simp add: syncthingNeedsReconfigure_def Let_def)
  also have "(missingFrom ?new cur \<or> missingFrom cur ?new) \<longleftrightarrow> desiredSet s nodeList \<noteq> currentSet P s"
    unfolding missingFrom_keys [OF knew] missingFrom_keys [OF cur(2)] dnew dcur by blast
  finally show ?thesis .
qed

lemma needsReconfigure_invalid:
  assumes "\<not> addressesValid P s"
  shows "syncthingNeedsReconfigure P nodeList (Some s) = Inl IndexOutOfRange"
proof -
  from assms have "\<not> list_all (\<lambda>d. GoString P (DeviceID d) = MyID s \<or> GoString P (IntroducedBy d) \<noteq> '''' \<or>
                         Addresses d \<noteq> []) (Devices (Configuration s))"
    by (simp add: addressesValid_def)
  from addCurrent_invalid [OF this] show ?thesis
    by (simp add: syncthingNeedsReconfigure_def)
qed



text \<open>
  Where the first-address read succeeds, the comparator compares the two key sets: it
  returns true if and only if they differ, and false when the desired peer identifiers
  equal the identifiers of the current devices that are neither introduced nor self.
\<close>

lemma needsReconfigure_key_sets:
  assumes "addressesValid P s"
  shows "syncthingNeedsReconfigure P nodeList (Some s) =
           Inr (desiredSet s nodeList \<noteq> currentSet P s) \<and>
         (ID ` set nodeList =
            {GoString P (DeviceID d) |d. d \<in> set (Devices (Configuration s)) \<and>
               GoString P (DeviceID d) \<noteq> MyID s \<and> GoString P (IntroducedBy d) = ''''}
          \<longrightarrow> syncthingNeedsReconfigure P nodeList (Some s) = Inr False)"
proof
  show eq: "syncthingNeedsReconfigure P nodeList (Some s) =
           Inr (desiredSet s nodeList \<noteq> currentSet P s)"
    using assms by (rule needsReconfigure_valid)
  show "ID ` set nodeList =
            {GoString P (DeviceID d) |d. d \<in> set (Devices (Configuration s)) \<and>
               GoString P (DeviceID d) \<noteq> MyID s \<and> GoString P (IntroducedBy d) = ''''}
          \<longrightarrow> syncthingNeedsReconfigure P nodeList (Some s) = Inr False"
  proof
    assume same: "ID ` set nodeList =
            {GoString P (DeviceID d) |d. d \<in> set (Devices (Configuration s)) \<and>
               GoString P (DeviceID d) \<noteq> MyID s \<and> GoString P (IntroducedBy d) = ''''}"
    have "{ID p |p. p \<in> set nodeList \<and> ID p \<noteq> MyID s} = ID ` set nodeList"
    proof
      show "{ID p |p. p \<in> set nodeList \<and> ID p \<noteq> MyID s} \<subseteq> ID ` set nodeList" by blast
      show "ID ` set nodeList \<subseteq> {ID p |p. p \<in> set nodeList \<and> ID p \<noteq> MyID s}"
      proof
        fix x assume x: "x \<in> ID ` set nodeList"
        then have "x \<noteq> MyID s" unfolding same by auto
        with x show "x \<in> {ID p |p. p \<in> set nodeList \<and> ID p \<noteq> MyID s}" by blast
      qed
    qed
    then have "desiredSet s nodeList = currentSet P s"
      unfolding desiredSet_def currentSet_def same by simp
    with eq show "syncthingNeedsReconfigure P nodeList (Some s) = Inr False" by simp
  qed
qed


text \<open>
  C4: a device with a non-empty introduced-by never affects the comparator. Adding such a
  device anywhere in the agent's current device list, or removing it, leaves the result
  (the boolean, or the panic) unchanged, for every desired peer list and agent state.
\<close>

theorem introduced_devices_ignored:
  assumes "GoString P (IntroducedBy d) \<noteq> ''''"
  shows "syncthingNeedsReconfigure P nodeList
           (Some (s\<lparr>Configuration := (Configuration s)\<lparr>Devices := xs @ d # ys\<rparr>\<rparr>)) =
         syncthingNeedsReconfigure P nodeList
           (Some (s\<lparr>Configuration := (Configuration s)\<lparr>Devices := xs @ ys\<rparr>\<rparr>))"
  using addCurrent_skip_introduced [OF assms, of "MyID s" xs ys]
  by (simp add: syncthingNeedsReconfigure_def MyID_def)

text \<open>The device \<open>B\<close>, introduced by \<open>A\<close>, makes no difference.\<close>

theorem introduced_devices_ignored_witness:
  "GoString exampleProtocol ''A'' \<noteq> [] \<and>
   syncthingNeedsReconfigure exampleProtocol [examplePeer]
     (Some (exampleAgent\<lparr>Configuration := (Configuration exampleAgent)
        \<lparr>Devices := [\<lparr>DeviceID = ''S'', Addresses = [], DevIntroducer = False, IntroducedBy = []\<rparr>] @
           \<lparr>DeviceID = ''B'', Addresses = [], DevIntroducer = False, IntroducedBy = ''A''\<rparr> # []\<rparr>\<rparr>)) =
   syncthingNeedsReconfigure exampleProtocol [examplePeer]
     (Some (exampleAgent\<lparr>Configuration := (Configuration exampleAgent)
        \<lparr>Devices := [\<lparr>DeviceID = ''S'', Addresses = [], DevIntroducer = False, IntroducedBy = []\<rparr>] @
           []\<rparr>\<rparr>))"
proof -
  have h: "GoString exampleProtocol (IntroducedBy
     \<lparr>DeviceID = ''B'', Addresses = [], DevIntroducer = False, IntroducedBy = ''A''\<rparr>) \<noteq> []"
    by (simp add: exampleProtocol_def)
  have g: "GoString exampleProtocol ''A'' \<noteq> []"
    by (simp add: exampleProtocol_def)
  from introduced_devices_ignored [OF h] g show ?thesis by (intro conjI)
qed

text \<open>
  C8: \<open>syncthingNeedsReconfigure\<close> is total on valid inputs: with a non-nil handle whose
  devices that are neither self nor introduced all have a non-empty address list it
  returns a boolean. The unguarded first-address read fails only outside that
  precondition, where the call panics with an index out of range.
\<close>

theorem syncthingNeedsReconfigure_total:
  "(addressesValid P s \<longrightarrow> (\<exists>b. syncthingNeedsReconfigure P nodeList (Some s) = Inr b)) \<and>
   (\<not> addressesValid P s \<longrightarrow>
      syncthingNeedsReconfigure P nodeList (Some s) = Inl IndexOutOfRange)"
proof (intro conjI impI)
  assume "addressesValid P s"
  then have "syncthingNeedsReconfigure P nodeList (Some s) =
               Inr (desiredSet s nodeList \<noteq> currentSet P s)"
    by (rule needsReconfigure_valid)
  then show "\<exists>b. syncthingNeedsReconfigure P nodeList (Some s) = Inr b" ..
next
  assume "\<not> addressesValid P s"
  then show "syncthingNeedsReconfigure P nodeList (Some s) = Inl IndexOutOfRange"
    by (rule needsReconfigure_invalid)
qed

text \<open>The spec's example agent is valid: its only device without an address is self.\<close>

theorem syncthingNeedsReconfigure_total_witness:
  "addressesValid exampleProtocol exampleAgent \<and>
   (\<exists>b. syncthingNeedsReconfigure exampleProtocol [examplePeer] (Some exampleAgent) = Inr b)"
proof -
  have h: "addressesValid exampleProtocol exampleAgent"
    by (simp add: addressesValid_def exampleProtocol_def exampleAgent_def MyID_def)
  from syncthingNeedsReconfigure_total [of exampleProtocol exampleAgent "[examplePeer]"] h
  show ?thesis by blast
qed

text \<open>
  C9: the nil guard is asymmetric. \<open>updateSyncthingDevices\<close> on a nil handle returns the
  error \<open>syncthing cannot be nil\<close>, whatever the peer list, and changes nothing;
  \<open>syncthingNeedsReconfigure\<close> has no nil check and dereferences the handle at once, so
  on a nil handle it panics and returns no boolean.
\<close>

theorem nil_handle_asymmetry:
  "updateSyncthingDevices P peerList None = (Some (Error ''syncthing cannot be nil''), None) \<and>
   syncthingNeedsReconfigure P nodeList None = Inl NilPointerDereference \<and>
   (\<forall>b. syncthingNeedsReconfigure P nodeList None \<noteq> Inr b)"
proof -
  have 1: "updateSyncthingDevices P peerList None = (Some (Error ''syncthing cannot be nil''), None)"
    by (simp add: updateSyncthingDevices_def)
  have 2: "syncthingNeedsReconfigure P nodeList None = Inl NilPointerDereference"
    by (simp add: syncthingNeedsReconfigure_def)
  have 3: "\<forall>b. syncthingNeedsReconfigure P nodeList None \<noteq> Inr b"
    unfolding 2 by simp
  from 1 2 3 show ?thesis by (intro conjI)
qed

text \<open>Both operations on a nil handle, with the spec's example peer.\<close>

theorem nil_handle_asymmetry_witness:
  "updateSyncthingDevices exampleProtocol [examplePeer] None =
     (Some (Error ''syncthing cannot be nil''), None) \<and>
   syncthingNeedsReconfigure exampleProtocol [examplePeer] None = Inl NilPointerDereference"
  using nil_handle_asymmetry [of exampleProtocol "[examplePeer]" "[examplePeer]"] by (intro conjI) simp_all

section \<open>GenerateRandomBytes and GenerateRandomString\<close>

text \<open>The loop is a map over the bytes, and the mapped byte does not overflow.\<close>

lemma acceptableRange_94: "acceptableRange = 94"
  by (simp add: acceptableRange_def upperBound_def lowerBound_def)

lemma mapBytes_map:
  "mapBytes b i acc = acc @ map (\<lambda>w. w mod acceptableRange + lowerBound) (drop i b)"
proof (induction b i acc rule: mapBytes.induct)
  case (1 b i acc)
  show ?case
  proof (cases "i < length b")
    case True
    then have d: "drop i b = b ! i # drop (Suc i) b"
      by (simp add: Cons_nth_drop_Suc)
    from True "1.IH" [OF True] show ?thesis
      unfolding mapBytes.simps [of b i acc] d by simp
  next
    case False
    then show ?thesis unfolding mapBytes.simps [of b i acc] by simp
  qed
qed

lemma unat_acceptable:
  fixes w :: "8 word"
  shows "unat (w mod 94 + 33) = unat w mod 94 + 33"
proof -
  have m: "unat (w mod 94) = unat w mod 94"
    by (simp add: unat_mod)
  have "unat w mod 94 < 94" by simp
  then have lt: "unat (w mod 94) + unat (33 :: 8 word) < 2 ^ LENGTH(8)"
    unfolding m by simp
  have "unat (w mod 94 + 33) = unat (w mod 94) + unat (33 :: 8 word)"
    using lt by (simp add: unat_add_lem [THEN iffD1])
  then show ?thesis unfolding m by simp
qed

lemma make_bytes_nonneg:
  "0 \<le> sint n \<Longrightarrow> make_bytes n = Inr (replicate (nat (sint n)) 0)"
  by (simp add: make_bytes_def)

lemma make_bytes_neg:
  "sint n < 0 \<Longrightarrow> make_bytes n = Inl MakeSliceLenOutOfRange"
  by (simp add: make_bytes_def)

lemma GenerateRandomBytes_ok:
  assumes "0 \<le> sint n" and "failure src = None"
  shows "GenerateRandomBytes src n = Inr (map (draw src) [0..<nat (sint n)])"
  using assms by (simp add: GenerateRandomBytes_def make_bytes_def rand_Read_def)

lemma GenerateRandomBytes_error:
  assumes "0 \<le> sint n" and "failure src = Some err"
  shows "GenerateRandomBytes src n = Inl (Error err)"
  using assms by (simp add: GenerateRandomBytes_def make_bytes_def rand_Read_def)

lemma GenerateRandomBytes_neg:
  assumes "sint n < 0"
  shows "GenerateRandomBytes src n = Inl MakeSliceLenOutOfRange"
  using assms by (simp add: GenerateRandomBytes_def make_bytes_def)

lemma GenerateRandomString_ok:
  assumes "0 \<le> sint n" and "failure src = None"
  shows "GenerateRandomString src n =
           Inr (map (\<lambda>i. char_of (unat (draw src i) mod 94 + 33)) [0..<nat (sint n)])"
proof -
  have "string_of_bytes (mapBytes (map (draw src) [0..<nat (sint n)]) 0 []) =
        map (\<lambda>i. char_of (unat (draw src i) mod 94 + 33)) [0..<nat (sint n)]"
    unfolding mapBytes_map string_of_bytes_def acceptableRange_94 lowerBound_def
    by (simp add: unat_acceptable o_def)
  with GenerateRandomBytes_ok [OF assms] show ?thesis
    by (simp add: GenerateRandomString_def)
qed

text \<open>
  C7: for a non-negative length \<open>n\<close> and a random source that does not fail,
  \<open>GenerateRandomString\<close> returns a string of exactly \<open>n\<close> characters; the character at
  each position has the code \<open>byte % 94 + 33\<close> of the random byte at that position, which
  lies between 33 and 126.
\<close>

theorem GenerateRandomString_printable:
  assumes "0 \<le> sint n" and "failure src = None"
  shows "\<exists>str. GenerateRandomString src n = Inr str \<and> length str = nat (sint n) \<and>
           (\<forall>i < nat (sint n).
              (of_char (str ! i) :: nat) = unat (draw src i) mod 94 + 33 \<and>
              33 \<le> (of_char (str ! i) :: nat) \<and> (of_char (str ! i) :: nat) \<le> 126)"
proof -
  define str where "str = map (\<lambda>i. char_of (unat (draw src i) mod 94 + 33)) [0..<nat (sint n)]"
  have r: "GenerateRandomString src n = Inr str"
    unfolding str_def using assms by (rule GenerateRandomString_ok)
  have l: "length str = nat (sint n)" unfolding str_def by simp
  have c: "(of_char (str ! i) :: nat) = unat (draw src i) mod 94 + 33 \<and>
           33 \<le> (of_char (str ! i) :: nat) \<and> (of_char (str ! i) :: nat) \<le> 126"
    if "i < nat (sint n)" for i
  proof -
    have lt: "unat (draw src i) mod 94 < 94" by simp
    have "str ! i = char_of (unat (draw src i) mod 94 + 33)"
      unfolding str_def using that by simp
    then have "(of_char (str ! i) :: nat) = (unat (draw src i) mod 94 + 33) mod 256"
      by simp
    also have "\<dots> = unat (draw src i) mod 94 + 33"
      using lt by simp
    finally show ?thesis using lt by simp
  qed
  from r l c show ?thesis by blast
qed

text \<open>Three characters from the bytes 0, 1, 2: the codes 33, 34, 35.\<close>

theorem GenerateRandomString_printable_witness:
  "0 \<le> sint (3 :: 64 word) \<and> failure exampleEntropy = None \<and>
   (\<exists>str. GenerateRandomString exampleEntropy (3 :: 64 word) = Inr str \<and> length str = 3 \<and>
      (of_char (str ! 0) :: nat) = 33 \<and> (of_char (str ! 1) :: nat) = 34 \<and>
      (of_char (str ! 2) :: nat) = 35)"
proof -
  have h1: "0 \<le> sint (3 :: 64 word)" by simp
  have h2: "failure exampleEntropy = None" by (simp add: exampleEntropy_def)
  from GenerateRandomString_printable [OF h1 h2] obtain str where
    s: "GenerateRandomString exampleEntropy (3 :: 64 word) = Inr str"
       "length str = nat (sint (3 :: 64 word))"
       "\<forall>i < nat (sint (3 :: 64 word)).
              (of_char (str ! i) :: nat) = unat (draw exampleEntropy i) mod 94 + 33 \<and>
              33 \<le> (of_char (str ! i) :: nat) \<and> (of_char (str ! i) :: nat) \<le> 126"
    by blast
  have n: "nat (sint (3 :: 64 word)) = 3" by simp
  from s(3) have "(of_char (str ! 0) :: nat) = unat (draw exampleEntropy 0) mod 94 + 33"
      "(of_char (str ! 1) :: nat) = unat (draw exampleEntropy 1) mod 94 + 33"
      "(of_char (str ! 2) :: nat) = unat (draw exampleEntropy 2) mod 94 + 33"
    unfolding n by simp_all
  then have "(of_char (str ! 0) :: nat) = 33" "(of_char (str ! 1) :: nat) = 34"
      "(of_char (str ! 2) :: nat) = 35"
    by (simp_all add: exampleEntropy_def)
  with s(1) s(2) n h1 h2 show ?thesis by auto
qed

text \<open>
  C10: a non-negative length is a precondition, not an error case. For \<open>n \<ge> 0\<close> the
  allocation gives \<open>n\<close> zero bytes, \<open>GenerateRandomBytes\<close> returns exactly \<open>n\<close> bytes when
  the random source does not fail, and returns the source's error when it does; for
  \<open>n < 0\<close> the allocation panics, in \<open>GenerateRandomBytes\<close> and in
  \<open>GenerateRandomString\<close> alike, and no error is returned.
\<close>

theorem nonnegative_length_precondition:
  "(0 \<le> sint n \<longrightarrow>
      make_bytes n = Inr (replicate (nat (sint n)) 0) \<and>
      (failure src = None \<longrightarrow>
         (\<exists>b. GenerateRandomBytes src n = Inr b \<and> length b = nat (sint n))) \<and>
      (\<forall>err. failure src = Some err \<longrightarrow> GenerateRandomBytes src n = Inl (Error err))) \<and>
   (sint n < 0 \<longrightarrow>
      make_bytes n = Inl MakeSliceLenOutOfRange \<and>
      GenerateRandomBytes src n = Inl MakeSliceLenOutOfRange \<and>
      GenerateRandomString src n = Inl MakeSliceLenOutOfRange)"
proof (intro conjI impI allI)
  assume "0 \<le> sint n"
  then show "make_bytes n = Inr (replicate (nat (sint n)) 0)" by (rule make_bytes_nonneg)
next
  assume "0 \<le> sint n" "failure src = None"
  then have "GenerateRandomBytes src n = Inr (map (draw src) [0..<nat (sint n)])"
    by (rule GenerateRandomBytes_ok)
  then show "\<exists>b. GenerateRandomBytes src n = Inr b \<and> length b = nat (sint n)" by simp
next
  fix err
  assume "0 \<le> sint n" "failure src = Some err"
  then show "GenerateRandomBytes src n = Inl (Error err)" by (rule GenerateRandomBytes_error)
next
  assume "sint n < 0"
  then show "make_bytes n = Inl MakeSliceLenOutOfRange" by (rule make_bytes_neg)
next
  assume "sint n < 0"
  then show "GenerateRandomBytes src n = Inl MakeSliceLenOutOfRange" by (rule GenerateRandomBytes_neg)
next
  assume "sint n < 0"
  then have "GenerateRandomBytes src n = Inl MakeSliceLenOutOfRange" by (rule GenerateRandomBytes_neg)
  then show "GenerateRandomString src n = Inl MakeSliceLenOutOfRange"
    by (simp add: GenerateRandomString_def)
qed

text \<open>The lengths 3 and -1.\<close>

theorem nonnegative_length_precondition_witness:
  "0 \<le> sint (3 :: 64 word) \<and> failure exampleEntropy = None \<and>
   make_bytes (3 :: 64 word) = Inr [0, 0, 0] \<and>
   (\<exists>b. GenerateRandomBytes exampleEntropy (3 :: 64 word) = Inr b \<and> length b = 3) \<and>
   sint (- 1 :: 64 word) < 0 \<and>
   GenerateRandomBytes exampleEntropy (- 1 :: 64 word) = Inl MakeSliceLenOutOfRange \<and>
   GenerateRandomString exampleEntropy (- 1 :: 64 word) = Inl MakeSliceLenOutOfRange"
proof -
  have h1: "0 \<le> sint (3 :: 64 word)" by simp
  have h2: "failure exampleEntropy = None" by (simp add: exampleEntropy_def)
  have h3: "sint (- 1 :: 64 word) < 0" by simp
  have n: "nat (sint (3 :: 64 word)) = 3" by simp
  have r: "replicate 3 (0 :: 8 word) = [0, 0, 0]" by (simp add: numeral_3_eq_3)
  from nonnegative_length_precondition [of "3 :: 64 word" exampleEntropy] h1 h2
  have a: "make_bytes (3 :: 64 word) = Inr [0, 0, 0]"
    and b: "\<exists>b. GenerateRandomBytes exampleEntropy (3 :: 64 word) = Inr b \<and> length b = 3"
    unfolding n r by blast+
  from nonnegative_length_precondition [of "- 1 :: 64 word" exampleEntropy] h3
  have c: "GenerateRandomBytes exampleEntropy (- 1 :: 64 word) = Inl MakeSliceLenOutOfRange"
    and d: "GenerateRandomString exampleEntropy (- 1 :: 64 word) = Inl MakeSliceLenOutOfRange"
    by blast+
  from h1 h2 a b h3 c d show ?thesis by (intro conjI)
qed

end
